theory Spec2Isabelle
  imports Main "HOL-Library.Multiset"
begin

section \<open>The Wordle solver of the notebook \<open>Solving Wordle.ipynb\<close>\<close>

text \<open>
  The notebook's Python is embedded function by function. A Python \<open>str\<close> is a
  \<^typ>\<open>string\<close>, a Python \<open>set\<close> of letters is a \<^typ>\<open>char set\<close>, and a Python
  \<open>dict\<close> is an association list in insertion order (Python dictionaries iterate in
  insertion order, and \<open>pop\<close> keeps the order of the remaining keys); its keys are
  distinct, which theorems about dictionaries assume as \<open>distinct (map fst d)\<close>.
  A board is a list of slots, each slot the empty string or a one-letter string, as
  \<open>play_wordle\<close> builds it. The exceptions the code can raise are values of
  \<open>error\<close>; a function that can raise returns \<open>error + 'a\<close>.
  Printing (\<open>report=True\<close>, \<open>report_attempt\<close>) does not change any value and is left out.
\<close>

subsection \<open>Constants\<close>

datatype error = ValueError | IndexError | KeyError | UnboundLocalError

type_synonym letters = "char set"
type_synonym pool = "(string \<times> letters) list"
type_synonym board = "string list"
type_synonym usage = "(char \<times> nat) list"
type_synonym buckets = "(nat \<times> string list) list"

definition CONSONANTS :: letters where
  "CONSONANTS = set ''bcdfghjklmnpqrstvwxz''"

definition VOWELS :: letters where
  "VOWELS = set ''aeiouy''"

subsection \<open>The game: \<open>play_wordle\<close>\<close>

text \<open>
  \<^verbatim>\<open>
  def play_wordle(guess:str, word_of_the_day:str) -> list:
      board = []
      correct_letters = set(word_of_the_day)
      has_letters = set(guess)
      has_letters = has_letters & correct_letters
      for correct_letter, guessed_letter in zip(word_of_the_day, guess):
          if correct_letter == guessed_letter:
              board.append(guessed_letter)
          else:
              board.append("")
      return board, has_letters
  \<close>
  \<open>zip\<close> stops at the shorter of its two arguments; nothing in the function raises.
\<close>

definition play_wordle :: "string \<Rightarrow> string \<Rightarrow> board \<times> letters" where
  "play_wordle guess word_of_the_day =
     (let correct_letters = set word_of_the_day;
          has_letters = set guess;
          has_letters = has_letters \<inter> correct_letters;
          board = map (\<lambda>(correct_letter, guessed_letter).
                         if correct_letter = guessed_letter then [guessed_letter] else [])
                      (zip word_of_the_day guess)
      in (board, has_letters))"

subsection \<open>Constraint propagation: \<open>eliminate\<close>\<close>

text \<open>
  \<^verbatim>\<open>
  def eliminate(cands:dict, game:list, found:set, contra:set) -> dict:
      candidate_words = list(cands.keys())
      for candidate_word in candidate_words:
          wordset = cands[candidate_word]
          # (1a) Eliminate based on shared letters
          if len(wordset & found) != len(found):
              cands.pop(candidate_word)
              continue
          # (1b) Eliminate contra-positive shared letters
          if len(wordset & contra) > 0:
              cands.pop(candidate_word)
              continue
          # (2) Eliminate based on shared position
          for i in range(len(game)):
              if len(game[i]) > 0 and candidate_word[i] != game[i]:
                  cands.pop(candidate_word)
                  break
      return cands
  \<close>
  The dictionary is mutated while the loop runs over a snapshot of its keys, so the
  model threads the dictionary through the loop. \<open>cands[candidate_word]\<close> raises
  \<open>KeyError\<close> on a missing key, and \<open>candidate_word[i]\<close> raises \<open>IndexError\<close> when the
  word is shorter than the board and the slot \<open>i\<close> is not empty (\<open>and\<close> evaluates its
  right operand only then).
\<close>

definition pop :: "pool \<Rightarrow> string \<Rightarrow> pool" where
  "pop cands k = filter (\<lambda>(w, wordset). w \<noteq> k) cands"

text \<open>The inner loop over \<open>range(len(game))\<close>: \<open>Inr True\<close> when it ends in \<open>break\<close>
  (the word is to be popped), \<open>Inr False\<close> when it runs to its end.\<close>

fun shared_position :: "string \<Rightarrow> board \<Rightarrow> nat list \<Rightarrow> error + bool" where
  "shared_position candidate_word game [] = Inr False"
| "shared_position candidate_word game (i # is) =
     (if length (game ! i) > 0 then
        (if i < length candidate_word then
           (if [candidate_word ! i] \<noteq> game ! i then Inr True
            else shared_position candidate_word game is)
         else Inl IndexError)
      else shared_position candidate_word game is)"

fun eliminate_loop :: "string list \<Rightarrow> pool \<Rightarrow> board \<Rightarrow> letters \<Rightarrow> letters \<Rightarrow> error + pool" where
  "eliminate_loop [] cands game found contra = Inr cands"
| "eliminate_loop (candidate_word # candidate_words) cands game found contra =
     (case map_of cands candidate_word of
        None \<Rightarrow> Inl KeyError
      | Some wordset \<Rightarrow>
          if card (wordset \<inter> found) \<noteq> card found then
            eliminate_loop candidate_words (pop cands candidate_word) game found contra
          else if card (wordset \<inter> contra) > 0 then
            eliminate_loop candidate_words (pop cands candidate_word) game found contra
          else
            (case shared_position candidate_word game [0..<length game] of
               Inl e \<Rightarrow> Inl e
             | Inr True \<Rightarrow>
                 eliminate_loop candidate_words (pop cands candidate_word) game found contra
             | Inr False \<Rightarrow>
                 eliminate_loop candidate_words cands game found contra))"

definition eliminate :: "pool \<Rightarrow> board \<Rightarrow> letters \<Rightarrow> letters \<Rightarrow> error + pool" where
  "eliminate cands game found contra =
     (let candidate_words = map fst cands
      in eliminate_loop candidate_words cands game found contra)"

text \<open>The notebook's test of the elimination step.\<close>

definition test_cands :: pool where
  "test_cands =
     [(''cigar'', {CHR ''a'', CHR ''c'', CHR ''g'', CHR ''i'', CHR ''r''}),
      (''rebut'', {CHR ''b'', CHR ''e'', CHR ''r'', CHR ''t'', CHR ''u''}),
      (''siste'', {CHR ''i'', CHR ''s'', CHR ''t'', CHR ''e''}),
      (''humph'', {CHR ''h'', CHR ''m'', CHR ''p'', CHR ''u''})]"

definition test_game :: board where
  "test_game = ['''', ''i'', '''', '''', '''']"

definition test_found :: letters where
  "test_found = {CHR ''i''}"

subsection \<open>Assignment strategy: \<open>break_ties\<close> and \<open>feature_bucket\<close>\<close>

text \<open>
  \<^verbatim>\<open>
  def break_ties(cands, usage):
      # break ties by scoring with most frequent vowels
      uv = {x[0]: idx for idx, x in enumerate(reversed(usage_vowels.items())) }
      for bucket, words in cands.items():
          scored = []
          for word in words:
              scored.append((word, sum([uv.get(i,0) for i in word])))
          scored = [i[0] for i in sorted(scored, key=lambda x: x[1], reverse=True)]
          cands[bucket] = scored
      return cands
  \<close>
  The body reads \<open>usage_vowels\<close>, which is not a parameter of \<open>break_ties\<close>: it is the
  notebook's global, the table \<open>most_shared(data, has_vowels=True)\<close> computed from the word
  list \<open>la.json\<close>. The word list is not part of the sources, so the global is the first
  argument \<open>global_usage_vowels\<close> of the model; the parameter \<open>usage\<close> is kept as the
  code has it.

  \<open>sorted(..., reverse=True)\<close> is stable: CPython reverses the list, sorts it with its
  stable ascending sort and reverses the result.
\<close>

definition rank_weight :: "usage \<Rightarrow> (char \<rightharpoonup> nat)" where
  "rank_weight global_usage_vowels =
     fold (\<lambda>(idx, x) uv. uv(fst x \<mapsto> idx)) (enumerate 0 (rev global_usage_vowels)) Map.empty"

definition get :: "('k \<rightharpoonup> 'v) \<Rightarrow> 'k \<Rightarrow> 'v \<Rightarrow> 'v" where
  "get d k dflt = (case d k of None \<Rightarrow> dflt | Some v \<Rightarrow> v)"

definition sorted_reverse :: "('a \<Rightarrow> nat) \<Rightarrow> 'a list \<Rightarrow> 'a list" where
  "sorted_reverse key xs = rev (sort_key key (rev xs))"

definition break_ties :: "usage \<Rightarrow> buckets \<Rightarrow> usage \<Rightarrow> buckets" where
  "break_ties global_usage_vowels cands usage =
     (let uv = rank_weight global_usage_vowels
      in map (\<lambda>(bucket, words).
                let scored = map (\<lambda>word. (word, sum_list (map (\<lambda>i. get uv i 0) word))) words;
                    scored = map fst (sorted_reverse snd scored)
                in (bucket, scored))
             cands)"

text \<open>
  \<^verbatim>\<open>
  def feature_bucket(cands:dict, usage:dict, has_vowels=True) -> list:
      buckets = defaultdict(list)
      cset = CONSONANTS
      if has_vowels:
          cset = VOWELS
      for word, wordset in cands.items():
          buckets[len(wordset & cset)].append(word)
      buckets = break_ties(buckets, usage)
      return buckets
  \<close>
  \<open>buckets[k].append(word)\<close> on a \<open>defaultdict(list)\<close> appends to the list of an existing
  key and otherwise inserts the key, last, with the one-word list.
\<close>

fun bucket_append :: "buckets \<Rightarrow> nat \<Rightarrow> string \<Rightarrow> buckets" where
  "bucket_append [] k word = [(k, [word])]"
| "bucket_append ((k', words) # rest) k word =
     (if k' = k then (k', words @ [word]) # rest
      else (k', words) # bucket_append rest k word)"

definition feature_bucket :: "usage \<Rightarrow> pool \<Rightarrow> usage \<Rightarrow> bool \<Rightarrow> buckets" where
  "feature_bucket global_usage_vowels cands usage has_vowels =
     (let cset = (if has_vowels then VOWELS else CONSONANTS);
          buckets = fold (\<lambda>(word, wordset) buckets.
                            bucket_append buckets (card (wordset \<inter> cset)) word) cands []
      in break_ties global_usage_vowels buckets usage)"

subsection \<open>Playing Wordle: \<open>choose_guess\<close>, \<open>solved_game\<close>, \<open>compute_wordle\<close>\<close>

text \<open>
  \<^verbatim>\<open>
  def choose_guess(buckets:dict) -> str:
      choose = max(list(buckets.keys()))
      return buckets[choose][0]

  def solved_game(board:list):
      return all([len(i) > 0 for i in board])
  \<close>
  \<open>max\<close> of an empty list raises \<open>ValueError\<close>, \<open>[0]\<close> on an empty list raises
  \<open>IndexError\<close>. The local \<open>choose\<close> is \<open>chosen\<close> in the model (\<open>choose\<close> is HOL's
  binomial coefficient).
\<close>

definition choose_guess :: "buckets \<Rightarrow> error + string" where
  "choose_guess buckets =
     (case map fst buckets of
        [] \<Rightarrow> Inl ValueError
      | k # ks \<Rightarrow>
          let chosen = fold max ks k
          in (case map_of buckets chosen of
                None \<Rightarrow> Inl KeyError
              | Some words \<Rightarrow> (case words of [] \<Rightarrow> Inl IndexError | word # _ \<Rightarrow> Inr word)))"

definition solved_game :: "board \<Rightarrow> bool" where
  "solved_game game = list_all (\<lambda>i. length i > 0) game"

text \<open>The dictionary \<open>h\<close> that \<open>report_solution\<close> and \<open>compute_wordle\<close> return.\<close>

record game_result =
  board :: string
  attempts :: int
  solved :: bool

definition report_solution :: "string list \<Rightarrow> int \<Rightarrow> game_result" where
  "report_solution game guess_attempt =
     \<lparr>board = concat game, attempts = guess_attempt, solved = True\<rparr>"

text \<open>
  \<^verbatim>\<open>
  def compute_wordle(cands:dict, example_wordle_word:str, usage_vowels:dict, usage_cons:dict,
                     max_tries=6, report=True):
      wordle_guess_attempt = 1
      while wordle_guess_attempt <= max_tries:
          # (1) Find vowels
          vowel_bucket = feature_bucket(cands, usage_vowels, has_vowels=True)
          guess_word = choose_guess(vowel_bucket)
          board, found = play_wordle(guess_word, example_wordle_word)
          contra = set(guess_word) - found
          if solved_game(board):
              return report_solution(board, wordle_guess_attempt, report)
          cands = eliminate(cands, board, found, contra)
          wordle_guess_attempt += 1
          # (2) Find consonants
          conson_bucket = feature_bucket(cands, usage_vowels, has_vowels=False)
          guess_word = choose_guess(conson_bucket)
          board, found = play_wordle(guess_word, example_wordle_word)
          contra = set(guess_word) - found
          if solved_game(board):
              return report_solution(board, wordle_guess_attempt, report)
          cands = eliminate(cands, board, found, contra)
          wordle_guess_attempt += 1
      h = {
          "board" : "".join(board),
          "attempts" : wordle_guess_attempt,
          "solved": False,
      }
      return h
  \<close>
  The local \<open>board\<close> is assigned only in the loop body; the model carries it as an
  option, \<open>None\<close> while unassigned, and reading it unassigned after the loop is Python's
  \<open>UnboundLocalError\<close>. The \<open>while\<close> loop is the recursive function \<open>compute_loop\<close>, one
  call for each test of the loop condition.
\<close>

function compute_loop ::
  "usage \<Rightarrow> pool \<Rightarrow> string \<Rightarrow> usage \<Rightarrow> usage \<Rightarrow> int \<Rightarrow> int \<Rightarrow> board option \<Rightarrow> error + game_result"
where
  "compute_loop global_usage_vowels cands example_wordle_word usage_vowels usage_cons max_tries
       wordle_guess_attempt last_board =
     (if wordle_guess_attempt \<le> max_tries then
        (let vowel_bucket = feature_bucket global_usage_vowels cands usage_vowels True in
         case choose_guess vowel_bucket of
           Inl e \<Rightarrow> Inl e
         | Inr guess_word \<Rightarrow>
            (case play_wordle guess_word example_wordle_word of
               (game, found) \<Rightarrow>
                 let contra = set guess_word - found in
                 if solved_game game then Inr (report_solution game wordle_guess_attempt)
                 else
                   (case eliminate cands game found contra of
                      Inl e \<Rightarrow> Inl e
                    | Inr cands \<Rightarrow>
                       let wordle_guess_attempt = wordle_guess_attempt + 1;
                           conson_bucket = feature_bucket global_usage_vowels cands usage_vowels False
                       in
                       (case choose_guess conson_bucket of
                          Inl e \<Rightarrow> Inl e
                        | Inr guess_word \<Rightarrow>
                           (case play_wordle guess_word example_wordle_word of
                              (game, found) \<Rightarrow>
                                let contra = set guess_word - found in
                                if solved_game game
                                then Inr (report_solution game wordle_guess_attempt)
                                else
                                  (case eliminate cands game found contra of
                                     Inl e \<Rightarrow> Inl e
                                   | Inr cands \<Rightarrow>
                                      let wordle_guess_attempt = wordle_guess_attempt + 1 in
                                      compute_loop global_usage_vowels cands example_wordle_word
                                        usage_vowels usage_cons max_tries wordle_guess_attempt
                                        (Some game)))))))
      else
        (case last_board of
           None \<Rightarrow> Inl UnboundLocalError
         | Some game \<Rightarrow>
             Inr \<lparr>board = concat game, attempts = wordle_guess_attempt, solved = False\<rparr>))"
  by pat_completeness auto
termination
  by (relation "measure (\<lambda>(g, c, w, uv, uc, max_tries, attempt, b). nat (max_tries + 1 - attempt))")
     auto

declare compute_loop.simps [simp del]

definition compute_wordle ::
  "usage \<Rightarrow> pool \<Rightarrow> string \<Rightarrow> usage \<Rightarrow> usage \<Rightarrow> int \<Rightarrow> error + game_result" where
  "compute_wordle global_usage_vowels cands example_wordle_word usage_vowels usage_cons max_tries =
     compute_loop global_usage_vowels cands example_wordle_word usage_vowels usage_cons max_tries
       1 None"

subsection \<open>Notions the properties are stated with\<close>

text \<open>
  The rule of the specification for \<open>eliminate\<close>, in its words: a word \<open>w\<close> with letter
  set \<open>S\<close> is kept when \<open>|S \<inter> found| = |found|\<close>, \<open>|S \<inter> contra| = 0\<close> and \<open>w[i] = board[i]\<close>
  at every position \<open>i\<close> whose slot is not empty. It is compared below with \<open>eliminate\<close>,
  which is the code.
\<close>

definition keeps :: "board \<Rightarrow> letters \<Rightarrow> letters \<Rightarrow> string \<times> letters \<Rightarrow> bool" where
  "keeps game found contra = (\<lambda>(w, S).
     card (S \<inter> found) = card found \<and> card (S \<inter> contra) = 0 \<and>
     (\<forall>i<length game. game ! i \<noteq> [] \<longrightarrow> [w ! i] = game ! i))"

text \<open>A sequence of eliminations, each on the dictionary the one before returned, as the
  loop of \<open>compute_wordle\<close> applies them; a feedback is \<open>(board, found, contra)\<close>.\<close>

fun eliminations :: "pool \<Rightarrow> (board \<times> letters \<times> letters) list \<Rightarrow> error + pool" where
  "eliminations cands [] = Inr cands"
| "eliminations cands ((game, found, contra) # feedbacks) =
     (case eliminate cands game found contra of
        Inl e \<Rightarrow> Inl e
      | Inr cands \<Rightarrow> eliminations cands feedbacks)"

text \<open>The score \<open>break_ties\<close> gives a word: \<open>sum([uv.get(i,0) for i in word])\<close>.\<close>

definition word_score :: "usage \<Rightarrow> string \<Rightarrow> nat" where
  "word_score global_usage_vowels word =
     sum_list (map (\<lambda>i. get (rank_weight global_usage_vowels) i 0) word)"

text \<open>The value of the global \<open>usage_vowels\<close> that the notebook prints:
  \<^verbatim>\<open>{'e': 1056, 'a': 909, 'o': 673, 'i': 647, 'u': 457, 'y': 417}\<close>.\<close>

definition notebook_usage_vowels :: usage where
  "notebook_usage_vowels =
     [(CHR ''e'', 1056), (CHR ''a'', 909), (CHR ''o'', 673), (CHR ''i'', 647),
      (CHR ''u'', 457), (CHR ''y'', 417)]"

text \<open>The body of the loop of \<open>feature_bucket\<close>, named: one dictionary entry is put into
  the bucket of its overlap with \<open>cset\<close>.\<close>

definition partition_step :: "letters \<Rightarrow> string \<times> letters \<Rightarrow> buckets \<Rightarrow> buckets" where
  "partition_step cset = (\<lambda>(word, wordset) buckets.
      bucket_append buckets (card (wordset \<inter> cset)) word)"

section \<open>Properties\<close>

subsection \<open>The inner loop of \<open>eliminate\<close>\<close>

lemma shared_position_value:
  "shared_position w game js = Inr b \<Longrightarrow>
   b = (\<not> (\<forall>i\<in>set js. game ! i \<noteq> [] \<longrightarrow> i < length w \<and> [w ! i] = game ! i))"
  by (induction js) (auto split: if_splits)

lemma shared_position_returns:
  "\<forall>i\<in>set js. game ! i \<noteq> [] \<longrightarrow> i < length w \<Longrightarrow> \<exists>b. shared_position w game js = Inr b"
  by (induction js) auto

lemma shared_position_error:
  "shared_position w game js = Inl e \<Longrightarrow> e = IndexError"
  by (induction js) (auto split: if_splits)

lemma shared_position_fits:
  assumes "length game \<le> length w"
  shows "shared_position w game [0..<length game] =
         Inr (\<not> (\<forall>i<length game. game ! i \<noteq> [] \<longrightarrow> [w ! i] = game ! i))"
proof -
  from assms have "\<forall>i\<in>set [0..<length game]. game ! i \<noteq> [] \<longrightarrow> i < length w"
    by auto
  then obtain b where b: "shared_position w game [0..<length game] = Inr b"
    using shared_position_returns by blast
  from shared_position_value [OF b] assms
  have "b = (\<not> (\<forall>i<length game. game ! i \<noteq> [] \<longrightarrow> [w ! i] = game ! i))"
    by auto
  with b show ?thesis by simp
qed

subsection \<open>\<open>eliminate\<close> on a dictionary is a filter\<close>

lemma pop_absent: "w \<notin> fst ` set xs \<Longrightarrow> pop xs w = xs"
  by (induction xs) (auto simp: pop_def)

lemma pop_unprocessed:
  assumes "distinct (map fst (pre @ (w, S) # rest))"
  shows "pop (pre @ (w, S) # rest) w = pre @ rest"
proof -
  from assms have "w \<notin> fst ` set pre" "w \<notin> fst ` set rest"
    by auto
  then have "pop pre w = pre" "pop rest w = rest"
    by (simp_all add: pop_absent)
  then show ?thesis
    by (simp add: pop_def)
qed

lemma map_of_unprocessed:
  assumes "distinct (map fst (pre @ (w, S) # rest))"
  shows "map_of (pre @ (w, S) # rest) w = Some S"
  using assms
  by (auto simp: map_add_def split: option.splits dest: map_of_SomeD) (metis fst_conv image_eqI)

text \<open>The loop invariant: the entries already visited and kept (\<open>pre\<close>) are followed by the
  entries still to visit (\<open>rest\<close>), whose keys are the rest of the snapshot.\<close>

lemma eliminate_loop_filter:
  assumes "distinct (map fst (pre @ rest))"
    and "\<forall>(w, S)\<in>set rest. length game \<le> length w"
  shows "eliminate_loop (map fst rest) (pre @ rest) game found contra =
         Inr (pre @ filter (keeps game found contra) rest)"
  using assms
proof (induction rest arbitrary: pre)
  case Nil
  then show ?case by simp
next
  case (Cons p rest)
  obtain w S where p: "p = (w, S)" by (cases p)
  from Cons.prems(1) have d: "distinct (map fst (pre @ (w, S) # rest))"
    by (simp add: p)
  then have d1: "distinct (map fst (pre @ rest))"
    and d2: "distinct (map fst ((pre @ [(w, S)]) @ rest))"
    by auto
  from Cons.prems(2) have len: "length game \<le> length w"
    and rest: "\<forall>(w, S)\<in>set rest. length game \<le> length w"
    by (auto simp: p)
  have dropped: "eliminate_loop (map fst rest) (pre @ rest) game found contra =
      Inr (pre @ filter (keeps game found contra) rest)"
    by (rule Cons.IH [OF d1 rest])
  have stays: "eliminate_loop (map fst rest) (pre @ (w, S) # rest) game found contra =
      Inr (pre @ (w, S) # filter (keeps game found contra) rest)"
    using Cons.IH [OF d2 rest] by simp
  let ?pos = "\<forall>i<length game. game ! i \<noteq> [] \<longrightarrow> [w ! i] = game ! i"
  have step: "eliminate_loop (map fst (p # rest)) (pre @ p # rest) game found contra =
      (if card (S \<inter> found) \<noteq> card found \<or> card (S \<inter> contra) > 0 \<or> \<not> ?pos
       then eliminate_loop (map fst rest) (pre @ rest) game found contra
       else eliminate_loop (map fst rest) (pre @ (w, S) # rest) game found contra)"
    by (auto simp add: p map_of_unprocessed [OF d] pop_unprocessed [OF d]
        shared_position_fits [OF len] simp del: map_of_append split: bool.split)
  show ?case
  proof (cases "keeps game found contra (w, S)")
    case True
    then show ?thesis
      unfolding step by (simp add: keeps_def p stays)
  next
    case False
    then show ?thesis
      unfolding step by (auto simp: keeps_def p dropped)
  qed
qed

lemma eliminate_is_filter:
  assumes "distinct (map fst pool)" and "\<forall>(w, S)\<in>set pool. length game \<le> length w"
  shows "eliminate pool game found contra = Inr (filter (keeps game found contra) pool)"
  using eliminate_loop_filter [of "[]" pool game found contra] assms
  by (simp add: eliminate_def)

subsection \<open>What \<open>eliminate\<close> returns is part of what it was given\<close>

lemma eliminate_loop_sub:
  "eliminate_loop ws cands game found contra = Inr r \<Longrightarrow>
   length r \<le> length cands \<and> set r \<subseteq> set cands"
proof (induction ws arbitrary: cands)
  case Nil
  then show ?case by simp
next
  case (Cons w ws)
  have pop_le: "length (pop cands w) \<le> length cands"
    and pop_sub: "set (pop cands w) \<subseteq> set cands"
    by (auto simp: pop_def)
  from Cons.prems consider
    "eliminate_loop ws (pop cands w) game found contra = Inr r"
    | "eliminate_loop ws cands game found contra = Inr r"
    by (auto split: option.splits if_splits sum.splits bool.splits)
  then show ?case
  proof cases
    case 1
    from Cons.IH [OF 1] pop_le pop_sub show ?thesis by auto
  next
    case 2
    from Cons.IH [OF 2] show ?thesis .
  qed
qed

lemma eliminations_sub:
  "eliminations cands fbs = Inr r \<Longrightarrow> length r \<le> length cands \<and> set r \<subseteq> set cands"
proof (induction cands fbs rule: eliminations.induct)
  case (1 cands)
  then show ?case by simp
next
  case (2 cands game found contra fbs)
  from "2.prems" obtain c where c: "eliminate cands game found contra = Inr c"
    and r: "eliminations c fbs = Inr r"
    by (auto split: sum.splits)
  from c have "length c \<le> length cands \<and> set c \<subseteq> set cands"
    by (simp add: eliminate_def eliminate_loop_sub)
  with "2.IH" [OF c r] show ?case by auto
qed

subsection \<open>The exceptions each function can raise\<close>

lemma eliminate_loop_error:
  "eliminate_loop ws cands game found contra = Inl e \<Longrightarrow> e = KeyError \<or> e = IndexError"
proof (induction ws arbitrary: cands)
  case Nil
  then show ?case by simp
next
  case (Cons w ws)
  show ?case
  proof (cases "map_of cands w")
    case None
    with Cons.prems show ?thesis by simp
  next
    case (Some S)
    show ?thesis
    proof (cases "shared_position w game [0..<length game]")
      case (Inl e')
      with Cons.prems Some Cons.IH shared_position_error [OF Inl] show ?thesis
        by (simp split: if_splits)
    next
      case (Inr b)
      with Cons.prems Some Cons.IH show ?thesis
        by (cases b) (simp_all split: if_splits)
    qed
  qed
qed

lemma eliminate_error:
  "eliminate cands game found contra = Inl e \<Longrightarrow> e = KeyError \<or> e = IndexError"
  unfolding eliminate_def Let_def by (rule eliminate_loop_error)

lemma choose_guess_error:
  "choose_guess buckets = Inl e \<Longrightarrow> e = ValueError \<or> e = KeyError \<or> e = IndexError"
  by (auto simp: choose_guess_def Let_def split: list.splits option.splits)

lemma compute_loop_bound:
  "last_board \<noteq> None \<or> a \<le> mt \<Longrightarrow>
   compute_loop g cands s uv uc mt a last_board \<noteq> Inl UnboundLocalError"
proof (induction g cands s uv uc mt a last_board rule: compute_loop.induct)
  case (1 g cands s uv uc mt a lb)
  show ?case
  proof (cases "a \<le> mt")
    case False
    with "1.prems" obtain b where "lb = Some b" by auto
    with False show ?thesis by (simp add: compute_loop.simps)
  next
    case True
    show ?thesis
      apply (subst compute_loop.simps)
      using True "1.IH"
      by (auto split: sum.splits prod.splits simp: Let_def
          dest: choose_guess_error eliminate_error)
  qed
qed

text \<open>Reading the unassigned \<open>board\<close> after the loop happens on every input with
  \<open>max_tries \<le> 0\<close>, and on no input with \<open>max_tries \<ge> 1\<close>, where the loop body runs at
  least once.\<close>

lemma compute_wordle_unassigned_board:
  "(max_tries \<le> 0 \<longrightarrow>
      compute_wordle g cands secret usage_v usage_c max_tries = Inl UnboundLocalError)
   \<and> (1 \<le> max_tries \<longrightarrow>
      compute_wordle g cands secret usage_v usage_c max_tries \<noteq> Inl UnboundLocalError)"
  by (simp add: compute_wordle_def compute_loop_bound) (simp add: compute_loop.simps)

subsection \<open>The parameter \<open>usage\<close> is never read\<close>

lemma compute_loop_usage:
  "compute_loop g cands s uv uc mt a lb = compute_loop g cands s [] [] mt a lb"
proof (induction g cands s uv uc mt a lb rule: compute_loop.induct)
  case (1 g cands s uv uc mt a lb)
  show ?case
    apply (subst compute_loop.simps [of g cands s uv uc mt a lb])
    apply (subst compute_loop.simps [of g cands s "[]" "[]" mt a lb])
    using "1.IH"
    by (auto split: sum.splits prod.splits simp: Let_def feature_bucket_def break_ties_def)
qed

subsection \<open>Rank weights, and the stable descending sort of \<open>break_ties\<close>\<close>

lemma fold_rank_absent:
  assumes F: "\<And>idx x uv. F (idx, x) uv = uv(fst x \<mapsto> idx)"
  shows "c \<notin> fst ` set xs \<Longrightarrow> fold F (enumerate n xs) m c = m c"
  by (induction xs arbitrary: n m) (auto simp: F)

lemma fold_rank_nth:
  assumes F: "\<And>idx x uv. F (idx, x) uv = uv(fst x \<mapsto> idx)"
  shows "distinct (map fst xs) \<Longrightarrow> i < length xs \<Longrightarrow>
     fold F (enumerate n xs) m (fst (xs ! i)) = Some (n + i)"
proof (induction xs arbitrary: n m i)
  case Nil
  then show ?case by simp
next
  case (Cons x xs)
  show ?case
  proof (cases i)
    case 0
    from Cons.prems(1) have "fst x \<notin> fst ` set xs" by auto
    then show ?thesis
      by (simp add: 0 F fold_rank_absent [of F, OF F])
  next
    case (Suc j)
    with Cons.prems have "distinct (map fst xs)" "j < length xs" by auto
    then show ?thesis
      by (simp add: Suc F Cons.IH)
  qed
qed

lemma rank_weight_nth:
  assumes "distinct (map fst g)" and "i < length g"
  shows "get (rank_weight g) (fst (rev g ! i)) 0 = i"
proof -
  from assms have *: "distinct (map fst (rev g))" "i < length (rev g)"
    by (simp_all add: rev_map [symmetric])
  have "rank_weight g (fst (rev g ! i)) = Some (0 + i)"
    unfolding rank_weight_def using * by (intro fold_rank_nth) simp_all
  then show ?thesis
    by (simp add: get_def)
qed

lemma rank_weight_absent:
  "c \<notin> fst ` set g \<Longrightarrow> get (rank_weight g) c 0 = 0"
proof -
  assume "c \<notin> fst ` set g"
  then have "c \<notin> fst ` set (rev g)" by simp
  then have "rank_weight g c = Map.empty c"
    unfolding rank_weight_def by (rule fold_rank_absent [rotated]) simp
  then show ?thesis
    by (simp add: get_def)
qed

lemma rank_weight_le:
  assumes "distinct (map fst g)"
  shows "get (rank_weight g) c 0 \<le> length g - 1"
proof (cases "c \<in> fst ` set g")
  case False
  then show ?thesis by (simp add: rank_weight_absent)
next
  case True
  then have "c \<in> set (map fst (rev g))" by simp
  then obtain i where "i < length (map fst (rev g))" and "map fst (rev g) ! i = c"
    by (meson in_set_conv_nth)
  then have i: "i < length g" and c: "c = fst (rev g ! i)"
    by simp_all
  with rank_weight_nth [OF assms i] show ?thesis by simp
qed

lemma insort_key_scored:
  "insort_key snd (x, f x) (map (\<lambda>w. (w, f w)) xs) = map (\<lambda>w. (w, f w)) (insort_key f x xs)"
  by (induction xs) auto

lemma sort_key_scored:
  "sort_key snd (map (\<lambda>w. (w, f w)) xs) = map (\<lambda>w. (w, f w)) (sort_key f xs)"
  by (induction xs) (auto simp: insort_key_scored)

lemma sorted_reverse_scored:
  "map fst (sorted_reverse snd (map (\<lambda>w. (w, f w)) xs)) = sorted_reverse f xs"
  by (simp add: sorted_reverse_def rev_map sort_key_scored o_def)

lemma mset_sorted_reverse: "mset (sorted_reverse f xs) = mset xs"
  by (simp add: sorted_reverse_def)

lemma set_sorted_reverse: "set (sorted_reverse f xs) = set xs"
  by (simp add: sorted_reverse_def)

lemma sorted_reverse_descending: "sorted_wrt (\<lambda>a b. f a \<ge> f b) (sorted_reverse f xs)"
proof -
  have "sorted (map f (sort_key f (rev xs)))"
    by (rule sorted_sort_key)
  then have "sorted_wrt (\<lambda>a b. f a \<le> f b) (sort_key f (rev xs))"
    by (simp add: sorted_map)
  then show ?thesis
    by (simp add: sorted_reverse_def sorted_wrt_rev)
qed

lemma sorted_reverse_stable:
  "filter (\<lambda>w. f w = k) (sorted_reverse f xs) = filter (\<lambda>w. f w = k) xs"
proof -
  have "filter (\<lambda>w. f w = k) (sorted_reverse f xs) = rev (filter (\<lambda>w. f w = k) (sort_key f (rev xs)))"
    by (simp add: sorted_reverse_def rev_filter)
  also have "\<dots> = rev (filter (\<lambda>w. f w = k) (rev xs))"
    by (simp only: sort_key_stable)
  also have "\<dots> = filter (\<lambda>w. f w = k) xs"
    by (simp add: rev_filter)
  finally show ?thesis .
qed

lemma break_ties_sorted:
  "break_ties g cands usage = map (\<lambda>(bucket, words). (bucket, sorted_reverse (word_score g) words)) cands"
  using sorted_reverse_scored [of "word_score g"]
  by (simp add: break_ties_def Let_def word_score_def)

subsection \<open>The buckets of \<open>feature_bucket\<close>\<close>

lemma bucket_append_keys:
  "map fst (bucket_append bs k w) =
     (if k \<in> set (map fst bs) then map fst bs else map fst bs @ [k])"
  by (induction bs k w rule: bucket_append.induct) auto

lemma bucket_append_key_set:
  "fst ` set (bucket_append bs k w) = insert k (fst ` set bs)"
  using arg_cong [OF bucket_append_keys [of bs k w], of set] by auto

lemma bucket_append_lookup:
  "map_of (bucket_append bs k w) k' =
     (if k' = k then Some (get (map_of bs) k [] @ [w]) else map_of bs k')"
  by (induction bs k w rule: bucket_append.induct) (auto simp: get_def)

lemma bucket_append_words:
  "mset (concat (map snd (bucket_append bs k w))) = add_mset w (mset (concat (map snd bs)))"
  by (induction bs k w rule: bucket_append.induct) auto

lemma bucket_append_nonempty:
  "list_all (\<lambda>(k, ws). ws \<noteq> []) bs \<Longrightarrow> list_all (\<lambda>(k, ws). ws \<noteq> []) (bucket_append bs k w)"
  by (induction bs k w rule: bucket_append.induct) auto

lemma partition_step_pair:
  "partition_step cset (w, S) bs = bucket_append bs (card (S \<inter> cset)) w"
  by (simp add: partition_step_def)

lemma partition_keys:
  "fst ` set (fold (partition_step cset) xs bs) =
     fst ` set bs \<union> (\<lambda>(w, S). card (S \<inter> cset)) ` set xs"
proof (induction xs arbitrary: bs)
  case Nil
  then show ?case by simp
next
  case (Cons x xs)
  obtain w S where x: "x = (w, S)" by (cases x)
  show ?case
    by (simp add: Cons.IH x partition_step_pair bucket_append_key_set del: set_map)
qed

lemma partition_distinct:
  "distinct (map fst bs) \<Longrightarrow> distinct (map fst (fold (partition_step cset) xs bs))"
  by (induction xs arbitrary: bs) (auto simp: partition_step_pair bucket_append_keys)

lemma partition_lookup:
  "get (map_of (fold (partition_step cset) xs bs)) k [] =
     get (map_of bs) k [] @ map fst (filter (\<lambda>(w, S). card (S \<inter> cset) = k) xs)"
proof (induction xs arbitrary: bs)
  case Nil
  then show ?case by simp
next
  case (Cons x xs)
  obtain w S where x: "x = (w, S)" by (cases x)
  have "get (map_of (bucket_append bs (card (S \<inter> cset)) w)) k [] =
      get (map_of bs) k [] @ (if card (S \<inter> cset) = k then [w] else [])"
    by (simp add: get_def bucket_append_lookup)
  then show ?case
    by (simp add: Cons.IH x partition_step_pair)
qed

lemma partition_words:
  "mset (concat (map snd (fold (partition_step cset) xs bs))) =
     mset (concat (map snd bs)) + mset (map fst xs)"
  by (induction xs arbitrary: bs) (auto simp: partition_step_pair bucket_append_words)

lemma partition_nonempty:
  "list_all (\<lambda>(k, ws). ws \<noteq> []) bs \<Longrightarrow>
   list_all (\<lambda>(k, ws). ws \<noteq> []) (fold (partition_step cset) xs bs)"
  by (induction xs arbitrary: bs) (auto simp: partition_step_pair bucket_append_nonempty)

lemma feature_bucket_as_fold:
  "feature_bucket g pool usage has_vowels =
     break_ties g (fold (partition_step (if has_vowels then VOWELS else CONSONANTS)) pool []) usage"
  by (simp add: feature_bucket_def partition_step_def)

lemma partition_entry:
  assumes "(k, ws) \<in> set (fold (partition_step cset) pool [])"
  shows "ws = map fst (filter (\<lambda>(w, S). card (S \<inter> cset) = k) pool) \<and> ws \<noteq> []"
proof -
  let ?P = "fold (partition_step cset) pool []"
  have "distinct (map fst ?P)"
    by (rule partition_distinct) simp
  with assms have "map_of ?P k = Some ws"
    by simp
  then have "get (map_of ?P) k [] = ws"
    by (simp add: get_def)
  moreover have "get (map_of ?P) k [] = map fst (filter (\<lambda>(w, S). card (S \<inter> cset) = k) pool)"
    unfolding partition_lookup by (simp add: get_def)
  ultimately have ws: "ws = map fst (filter (\<lambda>(w, S). card (S \<inter> cset) = k) pool)"
    by simp
  have "list_all (\<lambda>(k, ws). ws \<noteq> []) ?P"
    by (rule partition_nonempty) simp
  with assms have "ws \<noteq> []"
    by (auto simp: list_all_iff)
  with ws show ?thesis by simp
qed

lemma sorted_buckets_words:
  "mset (concat (map snd (map (\<lambda>(b, ws). (b, sorted_reverse f ws)) bs))) = mset (concat (map snd bs))"
  by (induction bs) (auto simp: mset_sorted_reverse)

lemma fold_max_in: "fold max ks (k :: nat) \<in> set (k # ks)"
proof (induction ks arbitrary: k)
  case Nil
  then show ?case by simp
next
  case (Cons a ks)
  from Cons.IH [of "max a k"] show ?case
    by (auto simp: max_def split: if_splits)
qed

lemma choose_guess_first:
  assumes "buckets \<noteq> []" and "\<forall>(k, ws)\<in>set buckets. ws \<noteq> []"
  shows "\<exists>k ws. (k, ws) \<in> set buckets \<and> choose_guess buckets = Inr (hd ws)"
proof -
  from assms(1) obtain k ks where keys: "map fst buckets = k # ks"
    by (cases buckets) auto
  let ?c = "fold max ks k"
  have "?c \<in> set (map fst buckets)"
    unfolding keys by (rule fold_max_in)
  then obtain ws where m: "map_of buckets ?c = Some ws"
    by (metis map_of_eq_None_iff not_None_eq set_map)
  then have mem: "(?c, ws) \<in> set buckets"
    by (rule map_of_SomeD)
  with assms(2) have "ws \<noteq> []" by auto
  then obtain w ws' where ws: "ws = w # ws'" by (cases ws) auto
  have "choose_guess buckets = Inr (hd ws)"
    by (simp add: choose_guess_def keys m ws)
  with mem show ?thesis by blast
qed

section \<open>The claims\<close>

text \<open>
  C1 (elimination soundness). Let the dictionary \<open>pool\<close> hold the secret with its letter set,
  and let every word of it be at least as long as the board (the words of a dictionary
  all have the secret's length). For every guess, with \<open>(board, found)\<close> the feedback of
  \<open>play_wordle\<close> for the guess against the secret and \<open>contra = set(guess) - found\<close>,
  \<open>eliminate\<close> returns a dictionary and the secret is still one of its keys. The secret may
  repeat letters: the precondition that it does not is not needed.
\<close>

theorem eliminate_keeps_secret:
  assumes "map_of pool secret = Some (set secret)"
    and "distinct (map fst pool)"
    and "\<forall>(w, S)\<in>set pool. min (length guess) (length secret) \<le> length w"
  shows "\<exists>pool'. eliminate pool (fst (play_wordle guess secret)) (snd (play_wordle guess secret))
            (set guess - snd (play_wordle guess secret)) = Inr pool'
          \<and> secret \<in> fst ` set pool'"
proof -
  let ?game = "fst (play_wordle guess secret)"
  let ?found = "snd (play_wordle guess secret)"
  let ?contra = "set guess - ?found"
  have len: "length ?game = min (length guess) (length secret)"
    by (simp add: play_wordle_def)
  have found: "?found = set guess \<inter> set secret"
    by (simp add: play_wordle_def)
  have slot: "?game ! i = (if secret ! i = guess ! i then [guess ! i] else [])"
    if "i < length ?game" for i
    using that by (simp add: play_wordle_def)
  from assms(3) len have fits: "\<forall>(w, S)\<in>set pool. length ?game \<le> length w"
    by simp
  have res: "eliminate pool ?game ?found ?contra = Inr (filter (keeps ?game ?found ?contra) pool)"
    by (rule eliminate_is_filter [OF assms(2) fits])
  have mem: "(secret, set secret) \<in> set pool"
    using assms(1) by (rule map_of_SomeD)
  have a: "card (set secret \<inter> ?found) = card ?found"
    by (simp add: found Int_absorb1 Int_commute)
  have "set secret \<inter> ?contra = {}"
    by (auto simp: found)
  then have b: "card (set secret \<inter> ?contra) = 0"
    by simp
  have c: "\<forall>i<length ?game. ?game ! i \<noteq> [] \<longrightarrow> [secret ! i] = ?game ! i"
    by (simp add: slot)
  from a b c have "keeps ?game ?found ?contra (secret, set secret)"
    by (simp add: keeps_def)
  with mem have "(secret, set secret) \<in> set (filter (keeps ?game ?found ?contra) pool)"
    by simp
  then have "secret \<in> fst ` set (filter (keeps ?game ?found ?contra) pool)"
    by (rule rev_image_eqI) simp
  with res show ?thesis by blast
qed

text \<open>The theorem at the notebook's test: guess \<open>cigar\<close>, secret \<open>siste\<close>, which repeats
  the letter \<open>s\<close>.\<close>

theorem eliminate_keeps_secret_witness:
  "map_of [(''cigar'', set ''cigar''), (''siste'', set ''siste'')] ''siste'' = Some (set ''siste'')
   \<and> distinct (map fst [(''cigar'', set ''cigar''), (''siste'', set ''siste'')])
   \<and> list_all (\<lambda>(w, S). min (length ''cigar'') (length ''siste'') \<le> length w)
         [(''cigar'', set ''cigar''), (''siste'', set ''siste'')]
   \<and> (\<exists>pool'. eliminate [(''cigar'', set ''cigar''), (''siste'', set ''siste'')]
        (fst (play_wordle ''cigar'' ''siste'')) (snd (play_wordle ''cigar'' ''siste''))
        (set ''cigar'' - snd (play_wordle ''cigar'' ''siste'')) = Inr pool'
      \<and> ''siste'' \<in> fst ` set pool')"
  using eliminate_keeps_secret
    [of "[(''cigar'', set ''cigar''), (''siste'', set ''siste'')]" "''siste''" "''cigar''"]
  by simp

text \<open>
  C2 (what \<open>eliminate\<close> keeps). On a dictionary whose words are at least as long as the
  board, \<open>eliminate\<close> returns the dictionary filtered, in its order, to exactly the entries
  \<open>(w, S)\<close> that \<open>keeps\<close> accepts: \<open>|S \<inter> found| = |found|\<close>, \<open>|S \<inter> contra| = 0\<close>, and
  \<open>w[i] = board[i]\<close> wherever \<open>board[i]\<close> is not empty. On the notebook's four-word test with
  board \<open>["", "i", "", "", ""]\<close>, found \<open>{i}\<close> and contra \<open>set("cigar") - found\<close> the result
  is exactly \<open>{"siste": {i, s, t, e}}\<close>.
\<close>

theorem eliminate_keeps_exactly:
  "(distinct (map fst pool) \<longrightarrow> (\<forall>(w, S)\<in>set pool. length game \<le> length w) \<longrightarrow>
      eliminate pool game found contra = Inr (filter (keeps game found contra) pool))
   \<and> eliminate test_cands test_game test_found (set ''cigar'' - test_found) =
       Inr [(''siste'', {CHR ''i'', CHR ''s'', CHR ''t'', CHR ''e''})]"
proof
  show "distinct (map fst pool) \<longrightarrow> (\<forall>(w, S)\<in>set pool. length game \<le> length w) \<longrightarrow>
      eliminate pool game found contra = Inr (filter (keeps game found contra) pool)"
    using eliminate_is_filter by blast
  show "eliminate test_cands test_game test_found (set ''cigar'' - test_found) =
       Inr [(''siste'', {CHR ''i'', CHR ''s'', CHR ''t'', CHR ''e''})]"
    by (simp add: eliminate_def test_cands_def test_game_def test_found_def pop_def upt_conv_Cons)
qed

text \<open>The theorem on three words after the feedback \<open>["", "", "", "e", ""]\<close>, found
  \<open>{e, o}\<close>, contra \<open>{a}\<close>: only \<open>onset\<close> is kept.\<close>

theorem eliminate_keeps_exactly_witness:
  "distinct (map fst [(''audio'', set ''audio''), (''onset'', set ''onset''), (''asset'', set ''asset'')])
   \<and> list_all (\<lambda>(w, S). length ['''', '''', '''', ''e'', ''''] \<le> length w)
       [(''audio'', set ''audio''), (''onset'', set ''onset''), (''asset'', set ''asset'')]
   \<and> eliminate [(''audio'', set ''audio''), (''onset'', set ''onset''), (''asset'', set ''asset'')]
       ['''', '''', '''', ''e'', ''''] {CHR ''e'', CHR ''o''} {CHR ''a''} =
     Inr [(''onset'', set ''onset'')]"
  using eliminate_keeps_exactly
    [of "[(''audio'', set ''audio''), (''onset'', set ''onset''), (''asset'', set ''asset'')]"
       "['''', '''', '''', ''e'', '''']" "{CHR ''e'', CHR ''o''}" "{CHR ''a''}"]
  by (simp add: keeps_def All_less_Suc)

text \<open>
  C3 (the feedback). For a guess and a secret of equal length, the board of \<open>play_wordle\<close>
  has that length and its slot \<open>i\<close> is the guessed letter when \<open>guess[i] = secret[i]\<close> and
  the empty string otherwise; the found set is \<open>set(guess) \<inter> set(secret)\<close>, whatever the
  positions and the multiplicities. Guess \<open>adieu\<close> against secret \<open>onset\<close> gives the board
  \<open>["", "", "", "e", ""]\<close> and found \<open>{e}\<close>.
\<close>

theorem play_wordle_feedback:
  "(length guess = length secret \<longrightarrow>
      length (fst (play_wordle guess secret)) = length guess \<and>
      (\<forall>i<length guess. fst (play_wordle guess secret) ! i =
          (if guess ! i = secret ! i then [guess ! i] else [])))
   \<and> snd (play_wordle guess secret) = set guess \<inter> set secret
   \<and> play_wordle ''adieu'' ''onset'' = (['''', '''', '''', ''e'', ''''], {CHR ''e''})"
  by (auto simp: play_wordle_def)

text \<open>The theorem at guess \<open>audio\<close>, secret \<open>onset\<close>.\<close>

theorem play_wordle_feedback_witness:
  "length ''audio'' = length ''onset'' \<and>
   length (fst (play_wordle ''audio'' ''onset'')) = 5 \<and>
   fst (play_wordle ''audio'' ''onset'') ! 4 = [] \<and>
   snd (play_wordle ''audio'' ''onset'') = {CHR ''o''}"
  using play_wordle_feedback [of "''audio''" "''onset''"]
  by auto

text \<open>
  C4 (the attempt budget). The claim is that no guess is evaluated at an attempt number
  above \<open>max_tries\<close>. The loop tests \<open>wordle_guess_attempt <= max_tries\<close> before the vowel
  guess only: after that guess the counter is incremented and the consonant guess is
  evaluated with no test in between. With \<open>max_tries = 1\<close>, the dictionary
  \<open>audio\<close>, \<open>onset\<close> and the secret \<open>onset\<close>, the first guess \<open>audio\<close> fails and the second
  guess \<open>onset\<close> is evaluated at attempt \<open>2\<close>: the game is reported solved with
  \<open>attempts = 2\<close>.
\<close>

theorem compute_wordle_second_guess_over_budget:
  "compute_wordle notebook_usage_vowels
     [(''audio'', set ''audio''), (''onset'', set ''onset'')] ''onset''
     notebook_usage_vowels [] 1
   = Inr \<lparr>board = ''onset'', attempts = 2, solved = True\<rparr>"
  by code_simp

text \<open>
  C5 (tie-break). The table read is the global \<open>usage_vowels\<close> (its keys are distinct, as
  those of a dictionary are). The rank weight of a letter is its index in the reversed
  table: the first entry of the table, the most frequent letter of a table in descending
  order, has the highest weight \<open>len - 1\<close>, the last entry has weight \<open>0\<close>, no weight
  exceeds \<open>len - 1\<close>, and a letter that is not in the table has weight \<open>0\<close>. The score of a
  word is the sum of the weights over its characters, one summand for each occurrence.
  \<open>break_ties\<close> keeps the bucket keys and their order, and replaces the word list of each
  bucket by a permutation of it that is in descending order of score and in which the
  words of equal score keep the order they had.
\<close>

theorem break_ties_rank_order:
  assumes "distinct (map fst g)"
  shows "(\<forall>i<length g. get (rank_weight g) (fst (rev g ! i)) 0 = i)
    \<and> (g \<noteq> [] \<longrightarrow> get (rank_weight g) (fst (hd g)) 0 = length g - 1
                  \<and> get (rank_weight g) (fst (last g)) 0 = 0)
    \<and> (\<forall>c. get (rank_weight g) c 0 \<le> length g - 1)
    \<and> (\<forall>c. c \<notin> fst ` set g \<longrightarrow> get (rank_weight g) c 0 = 0)
    \<and> (\<forall>word. word_score g word = (\<Sum>c\<leftarrow>word. get (rank_weight g) c 0))
    \<and> map fst (break_ties g cands usage) = map fst cands
    \<and> (\<forall>j<length cands.
         mset (snd (break_ties g cands usage ! j)) = mset (snd (cands ! j))
         \<and> sorted_wrt (\<lambda>a b. word_score g a \<ge> word_score g b) (snd (break_ties g cands usage ! j))
         \<and> (\<forall>k. filter (\<lambda>w. word_score g w = k) (snd (break_ties g cands usage ! j))
                  = filter (\<lambda>w. word_score g w = k) (snd (cands ! j))))"
proof -
  have ranks: "\<forall>i<length g. get (rank_weight g) (fst (rev g ! i)) 0 = i"
    using rank_weight_nth [OF assms] by blast
  have ends: "g \<noteq> [] \<longrightarrow> get (rank_weight g) (fst (hd g)) 0 = length g - 1
      \<and> get (rank_weight g) (fst (last g)) 0 = 0"
  proof
    assume g: "g \<noteq> []"
    then have l: "length g - 1 < length g" "0 < length g" by simp_all
    from g have "rev g ! (length g - 1) = hd g" "rev g ! 0 = last g"
      by (simp_all add: rev_nth hd_conv_nth last_conv_nth)
    with rank_weight_nth [OF assms l(1)] rank_weight_nth [OF assms l(2)]
    show "get (rank_weight g) (fst (hd g)) 0 = length g - 1
      \<and> get (rank_weight g) (fst (last g)) 0 = 0" by simp
  qed
  have bound: "\<forall>c. get (rank_weight g) c 0 \<le> length g - 1"
    using rank_weight_le [OF assms] by blast
  have absent: "\<forall>c. c \<notin> fst ` set g \<longrightarrow> get (rank_weight g) c 0 = 0"
    using rank_weight_absent by blast
  have score: "\<forall>word. word_score g word = (\<Sum>c\<leftarrow>word. get (rank_weight g) c 0)"
    by (simp add: word_score_def)
  have keys: "map fst (break_ties g cands usage) = map fst cands"
    by (simp add: break_ties_sorted case_prod_unfold o_def)
  have bucket: "snd (break_ties g cands usage ! j) = sorted_reverse (word_score g) (snd (cands ! j))"
    if "j < length cands" for j
    using that by (simp add: break_ties_sorted case_prod_unfold)
  have order: "\<forall>j<length cands.
         mset (snd (break_ties g cands usage ! j)) = mset (snd (cands ! j))
         \<and> sorted_wrt (\<lambda>a b. word_score g a \<ge> word_score g b) (snd (break_ties g cands usage ! j))
         \<and> (\<forall>k. filter (\<lambda>w. word_score g w = k) (snd (break_ties g cands usage ! j))
                  = filter (\<lambda>w. word_score g w = k) (snd (cands ! j)))"
    by (simp add: bucket mset_sorted_reverse sorted_reverse_descending sorted_reverse_stable)
  from ranks ends bound absent score keys order show ?thesis
    by (intro conjI)
qed

text \<open>The theorem at the notebook's table: \<open>e\<close>, the most frequent vowel, has weight 5 and
  \<open>y\<close>, the least frequent, weight 0; the consonant \<open>b\<close> has weight 0.\<close>

theorem break_ties_rank_order_witness:
  "distinct (map fst notebook_usage_vowels)
   \<and> get (rank_weight notebook_usage_vowels) (CHR ''e'') 0 = 5
   \<and> get (rank_weight notebook_usage_vowels) (CHR ''y'') 0 = 0
   \<and> get (rank_weight notebook_usage_vowels) (CHR ''b'') 0 = 0
   \<and> map fst (break_ties notebook_usage_vowels [(4, [''bayou'', ''audio''])] []) = [4]"
proof -
  have d: "distinct (map fst notebook_usage_vowels)"
    by (simp add: notebook_usage_vowels_def)
  from break_ties_rank_order [OF d, of "[(4, [''bayou'', ''audio''])]" "[]"]
  have "get (rank_weight notebook_usage_vowels) (fst (hd notebook_usage_vowels)) 0
          = length notebook_usage_vowels - 1"
    and "get (rank_weight notebook_usage_vowels) (fst (last notebook_usage_vowels)) 0 = 0"
    and "CHR ''b'' \<notin> fst ` set notebook_usage_vowels
          \<longrightarrow> get (rank_weight notebook_usage_vowels) (CHR ''b'') 0 = 0"
    and "map fst (break_ties notebook_usage_vowels [(4, [''bayou'', ''audio''])] []) = [4]"
    by (simp_all add: notebook_usage_vowels_def)
  with d show ?thesis
    by (simp add: notebook_usage_vowels_def)
qed

text \<open>
  C6 (the table behind the tie-break). \<open>break_ties\<close> takes its weights from the global
  \<open>usage_vowels\<close>, the vowel table, and never reads its parameter \<open>usage\<close>. So for any two
  tables passed as \<open>usage\<close> the buckets of \<open>feature_bucket\<close> are equal, keys, words and
  order, for \<open>has_vowels\<close> true and false alike; and \<open>compute_wordle\<close> returns the same
  whatever tables it is given as \<open>usage_vowels\<close> and \<open>usage_cons\<close>.
\<close>

theorem feature_bucket_ignores_usage:
  "break_ties g buckets usage1 = break_ties g buckets usage2
   \<and> feature_bucket g cands usage1 has_vowels = feature_bucket g cands usage2 has_vowels
   \<and> compute_wordle g cands secret usage1 cons1 max_tries
       = compute_wordle g cands secret usage2 cons2 max_tries"
proof -
  have "compute_loop g cands secret usage1 cons1 max_tries 1 None
      = compute_loop g cands secret [] [] max_tries 1 None"
    by (rule compute_loop_usage)
  also have "\<dots> = compute_loop g cands secret usage2 cons2 max_tries 1 None"
    by (rule compute_loop_usage [symmetric])
  finally show ?thesis
    by (simp add: compute_wordle_def feature_bucket_def break_ties_def)
qed

text \<open>
  C8 (no tries). The claim is that a call with \<open>max_tries \<le> 0\<close> is refused with
  \<open>InvalidConfigurationError\<close>. The code does not look at \<open>max_tries\<close> before the loop.
  With \<open>max_tries = 0\<close> the loop body never runs, and the code after the loop, which
  builds the unsolved result as it does when the tries run out, reads the local \<open>board\<close>;
  \<open>board\<close> is assigned only inside the loop, so the call ends in Python's
  \<open>UnboundLocalError\<close>, with neither the configuration error nor a result.
\<close>

theorem compute_wordle_no_tries_unbound:
  "compute_wordle notebook_usage_vowels test_cands ''siste'' [] [] 0 = Inl UnboundLocalError"
  by (simp add: compute_wordle_def compute_loop.simps)

text \<open>
  C9 (lengths that disagree). The claim is that \<open>play_wordle\<close> raises
  \<open>InvalidWordLengthError\<close> when the lengths of the guess and the secret differ. The code
  has no such exception and compares no lengths: \<open>zip\<close> stops at the shorter word and a
  feedback is returned. Guess \<open>ab\<close> against secret \<open>abc\<close> returns the board
  \<open>["a", "b"]\<close> and found \<open>{a, b}\<close>.
\<close>

theorem play_wordle_length_mismatch_returns:
  "length ''ab'' \<noteq> length ''abc'' \<and>
   play_wordle ''ab'' ''abc'' = ([''a'', ''b''], {CHR ''a'', CHR ''b''})"
  by (simp add: play_wordle_def insert_commute)

text \<open>
  C9 as amended. For every guess and secret, of equal length or not, \<open>play_wordle\<close>
  returns a feedback and raises nothing: the board has as many slots as the shorter of
  the two words, slot \<open>i\<close> is the guessed letter when \<open>guess[i] = secret[i]\<close> and the empty
  string otherwise, and found is \<open>set(guess) \<inter> set(secret)\<close>.
\<close>

theorem play_wordle_any_lengths:
  "length (fst (play_wordle guess secret)) = min (length guess) (length secret)
   \<and> (\<forall>i<min (length guess) (length secret). fst (play_wordle guess secret) ! i =
          (if guess ! i = secret ! i then [guess ! i] else []))
   \<and> snd (play_wordle guess secret) = set guess \<inter> set secret"
  by (auto simp: play_wordle_def min_def)

text \<open>The theorem at guess \<open>abcd\<close>, secret \<open>xbz\<close>.\<close>

theorem play_wordle_any_lengths_witness:
  "length (fst (play_wordle ''abcd'' ''xbz'')) = 3 \<and>
   fst (play_wordle ''abcd'' ''xbz'') ! 1 = ''b'' \<and>
   snd (play_wordle ''abcd'' ''xbz'') = {CHR ''b''}"
  using play_wordle_any_lengths [of "''abcd''" "''xbz''"]
  by auto

text \<open>
  C7 (monotonic narrowing). On a dictionary whose words are at least as long as the board,
  \<open>eliminate\<close> returns; and whenever it returns, the dictionary returned has at most as
  many entries as the one given and its keys are keys of the one given: no word is added.
  Hence the same holds from the first to the last dictionary of any sequence of
  eliminations, each applied to the result of the one before.
\<close>

theorem eliminate_narrows:
  "(distinct (map fst pool) \<longrightarrow> (\<forall>(w, S)\<in>set pool. length game \<le> length w) \<longrightarrow>
      (\<exists>pool'. eliminate pool game found contra = Inr pool'))
   \<and> (\<forall>pool'. eliminate pool game found contra = Inr pool' \<longrightarrow>
         length pool' \<le> length pool \<and> fst ` set pool' \<subseteq> fst ` set pool)
   \<and> (\<forall>pool'. eliminations pool feedbacks = Inr pool' \<longrightarrow>
         length pool' \<le> length pool \<and> fst ` set pool' \<subseteq> fst ` set pool)"
proof (intro conjI allI impI)
  assume "distinct (map fst pool)" and "\<forall>(w, S)\<in>set pool. length game \<le> length w"
  then show "\<exists>pool'. eliminate pool game found contra = Inr pool'"
    by (simp add: eliminate_is_filter)
next
  fix pool' assume "eliminate pool game found contra = Inr pool'"
  then have *: "length pool' \<le> length pool \<and> set pool' \<subseteq> set pool"
    by (simp add: eliminate_def eliminate_loop_sub)
  then show "length pool' \<le> length pool" by simp
  from * show "fst ` set pool' \<subseteq> fst ` set pool" by blast
next
  fix pool' assume "eliminations pool feedbacks = Inr pool'"
  then have *: "length pool' \<le> length pool \<and> set pool' \<subseteq> set pool"
    by (rule eliminations_sub)
  then show "length pool' \<le> length pool" by simp
  from * show "fst ` set pool' \<subseteq> fst ` set pool" by blast
qed

text \<open>The theorem at the notebook's test, and at that elimination followed by a second
  one.\<close>

theorem eliminate_narrows_witness:
  "(\<exists>pool'.
      eliminate test_cands test_game test_found (set ''cigar'' - test_found) = Inr pool'
      \<and> length pool' \<le> length test_cands \<and> fst ` set pool' \<subseteq> fst ` set test_cands)
   \<and> (\<exists>pool'.
      eliminations test_cands
           [(test_game, test_found, set ''cigar'' - test_found), (test_game, test_found, {})]
         = Inr pool'
      \<and> length pool' \<le> length test_cands \<and> fst ` set pool' \<subseteq> fst ` set test_cands)"
proof -
  have d: "distinct (map fst test_cands)"
    and l: "\<forall>(w, S)\<in>set test_cands. length test_game \<le> length w"
    by (simp_all add: test_cands_def test_game_def)
  have e: "eliminations test_cands
           [(test_game, test_found, set ''cigar'' - test_found), (test_game, test_found, {})]
         = Inr [(''siste'', {CHR ''i'', CHR ''s'', CHR ''t'', CHR ''e''})]"
    by (simp add: eliminate_def test_cands_def test_game_def test_found_def pop_def upt_conv_Cons)
  note T = eliminate_narrows [of test_cands test_game test_found "set ''cigar'' - test_found"
      "[(test_game, test_found, set ''cigar'' - test_found), (test_game, test_found, {})]"]
  from T [THEN conjunct1, THEN mp, OF d, THEN mp, OF l]
  obtain p where p: "eliminate test_cands test_game test_found (set ''cigar'' - test_found) = Inr p" ..
  note T2 = T [THEN conjunct2, THEN conjunct1, THEN spec, THEN mp, OF p]
  note T3 = T [THEN conjunct2, THEN conjunct2, THEN spec, THEN mp, OF e]
  show ?thesis
    by (rule conjI; rule exI; rule conjI) (rule p T2 e T3)+
qed

text \<open>
  C10 (the buckets partition the dictionary). With \<open>cset\<close> the letter class of the call
  and \<open>B\<close> the buckets \<open>feature_bucket\<close> returns: the keys of \<open>B\<close> are distinct; every
  bucket is non-empty and holds exactly the words of the dictionary whose letter set
  overlaps \<open>cset\<close> in as many letters as the bucket's key; every word of the dictionary is
  in the bucket keyed by its overlap; the words of all buckets together are the keys of
  the dictionary, each as often as it is a key, and their union is the key set. Because
  the keys of a dictionary are distinct, no word is listed twice and a word is in no
  bucket but that of its overlap. For a non-empty dictionary \<open>choose_guess\<close> returns a
  word, and it is a key of the dictionary.
\<close>

theorem feature_bucket_partition:
  fixes g usage :: usage and pool :: pool and has_vowels :: bool
    and cset :: letters and B :: buckets
  defines "cset \<equiv> if has_vowels then VOWELS else CONSONANTS"
    and "B \<equiv> feature_bucket g pool usage has_vowels"
  shows "distinct (map fst B)
     \<and> (\<forall>(k, ws)\<in>set B. ws \<noteq> [] \<and> set ws = {w. \<exists>S. (w, S) \<in> set pool \<and> card (S \<inter> cset) = k})
     \<and> (\<forall>(w, S)\<in>set pool. \<exists>ws. (card (S \<inter> cset), ws) \<in> set B \<and> w \<in> set ws)
     \<and> mset (concat (map snd B)) = mset (map fst pool)
     \<and> \<Union> (set ` snd ` set B) = fst ` set pool
     \<and> (distinct (map fst pool) \<longrightarrow>
          distinct (concat (map snd B))
          \<and> (\<forall>(w, S)\<in>set pool. \<forall>(k, ws)\<in>set B. w \<in> set ws \<longrightarrow> k = card (S \<inter> cset)))
     \<and> (pool \<noteq> [] \<longrightarrow> (\<exists>w. choose_guess B = Inr w \<and> w \<in> fst ` set pool))"
proof -
  let ?P = "fold (partition_step cset) pool []"
  let ?sc = "word_score g"
  have B: "B = map (\<lambda>(b, ws). (b, sorted_reverse ?sc ws)) ?P"
    by (simp add: B_def cset_def feature_bucket_as_fold break_ties_sorted)
  have keys: "map fst B = map fst ?P"
    by (simp add: B case_prod_unfold o_def)
  have dist: "distinct (map fst B)"
    unfolding keys by (rule partition_distinct) simp
  have entry: "ws \<noteq> [] \<and> set ws = {w. \<exists>S. (w, S) \<in> set pool \<and> card (S \<inter> cset) = k}"
    if "(k, ws) \<in> set B" for k ws
  proof -
    from that obtain ws0 where ws0: "(k, ws0) \<in> set ?P" and ws: "ws = sorted_reverse ?sc ws0"
      by (auto simp: B)
    from partition_entry [OF ws0]
    have "ws0 = map fst (filter (\<lambda>(w, S). card (S \<inter> cset) = k) pool)" and "ws0 \<noteq> []"
      by blast+
    moreover have "set ws = set ws0" and "ws = [] \<longleftrightarrow> ws0 = []"
      using set_sorted_reverse [of ?sc ws0] by (auto simp: ws)
    ultimately show ?thesis
      by (auto simp: image_iff)
  qed
  have entries: "\<forall>(k, ws)\<in>set B. ws \<noteq> [] \<and> set ws = {w. \<exists>S. (w, S) \<in> set pool \<and> card (S \<inter> cset) = k}"
    using entry by blast
  have home: "\<exists>ws. (card (S \<inter> cset), ws) \<in> set B \<and> w \<in> set ws" if "(w, S) \<in> set pool" for w S
  proof -
    from that have "card (S \<inter> cset) \<in> fst ` set ?P"
      by (force simp: partition_keys)
    then have "card (S \<inter> cset) \<in> set (map fst B)"
      by (simp add: keys)
    then obtain ws where ws: "(card (S \<inter> cset), ws) \<in> set B"
      by auto
    with entry [OF ws] that show ?thesis by blast
  qed
  have homes: "\<forall>(w, S)\<in>set pool. \<exists>ws. (card (S \<inter> cset), ws) \<in> set B \<and> w \<in> set ws"
    using home by blast
  have words: "mset (concat (map snd B)) = mset (map fst pool)"
    unfolding B sorted_buckets_words partition_words by simp
  have union: "\<Union> (set ` snd ` set B) = fst ` set pool"
    using arg_cong [OF words, of set_mset] by simp
  have once: "distinct (map fst pool) \<longrightarrow>
          distinct (concat (map snd B))
          \<and> (\<forall>(w, S)\<in>set pool. \<forall>(k, ws)\<in>set B. w \<in> set ws \<longrightarrow> k = card (S \<inter> cset))"
  proof (intro impI conjI)
    assume d: "distinct (map fst pool)"
    with words show "distinct (concat (map snd B))"
      by (metis mset_eq_imp_distinct_iff)
    show "\<forall>(w, S)\<in>set pool. \<forall>(k, ws)\<in>set B. w \<in> set ws \<longrightarrow> k = card (S \<inter> cset)"
    proof (intro ballI, clarify)
      fix w S k ws assume p: "(w, S) \<in> set pool" and b: "(k, ws) \<in> set B" and w: "w \<in> set ws"
      from entry [OF b] w obtain S' where "(w, S') \<in> set pool" and k: "card (S' \<inter> cset) = k"
        by auto
      with d p have "S' = S"
        by (meson eq_key_imp_eq_value)
      with k show "k = card (S \<inter> cset)" by simp
    qed
  qed
  have guess: "pool \<noteq> [] \<longrightarrow> (\<exists>w. choose_guess B = Inr w \<and> w \<in> fst ` set pool)"
  proof
    assume "pool \<noteq> []"
    then obtain w S where "(w, S) \<in> set pool" by (cases pool) auto
    from home [OF this] have "B \<noteq> []" by auto
    moreover from entry have "\<forall>(k, ws)\<in>set B. ws \<noteq> []" by blast
    ultimately obtain k ws where b: "(k, ws) \<in> set B" and c: "choose_guess B = Inr (hd ws)"
      using choose_guess_first by blast
    from entry [OF b] have "hd ws \<in> set ws" and "set ws \<subseteq> fst ` set pool"
      by force+
    with c show "\<exists>w. choose_guess B = Inr w \<and> w \<in> fst ` set pool"
      by blast
  qed
  from dist entries homes words union once guess show ?thesis
    by (intro conjI)
qed

text \<open>The theorem at the notebook's four test words, in the vowel phase.\<close>

theorem feature_bucket_partition_witness:
  "distinct (map fst test_cands) \<and> test_cands \<noteq> []
   \<and> distinct (map fst (feature_bucket notebook_usage_vowels test_cands [] True))
   \<and> mset (concat (map snd (feature_bucket notebook_usage_vowels test_cands [] True)))
       = mset (map fst test_cands)
   \<and> distinct (concat (map snd (feature_bucket notebook_usage_vowels test_cands [] True)))
   \<and> (\<exists>w. choose_guess (feature_bucket notebook_usage_vowels test_cands [] True) = Inr w
          \<and> w \<in> fst ` set test_cands)"
proof -
  have d: "distinct (map fst test_cands)" and ne: "test_cands \<noteq> []"
    by (simp_all add: test_cands_def)
  note T = feature_bucket_partition [of notebook_usage_vowels test_cands "[]" True]
  note T4 = T [THEN conjunct2, THEN conjunct2, THEN conjunct2]
  note T6 = T4 [THEN conjunct2, THEN conjunct2]
  from d ne T [THEN conjunct1] T4 [THEN conjunct1]
    T6 [THEN conjunct1, THEN mp, OF d, THEN conjunct1] T6 [THEN conjunct2, THEN mp, OF ne]
  show ?thesis
    by (intro conjI)
qed

end
